theory Spec2Isabelle
  imports Complex_Main "HOL-Library.Word"
begin

unbundle bit_operations_syntax

section \<open>Digital caliper firmware: data model\<close>

text \<open>
  The firmware (\<^verbatim>\<open>digital_caliper.ino\<close>) targets a 32-bit board: \<^verbatim>\<open>unsigned long\<close>,
  \<^verbatim>\<open>uint32_t\<close> and \<^verbatim>\<open>long\<close> are 32 bits wide, \<^verbatim>\<open>uint8_t\<close> is 8 bits wide. Unsigned
  arithmetic wraps; \<^verbatim>\<open>long\<close> is read in two's complement (\<open>sint\<close>).

  The \<^verbatim>\<open>float\<close> global \<^verbatim>\<open>measurement\<close> is modelled by an exact real: the rounding of
  the floating-point arithmetic is not represented.

  The serial port and the display are external devices. Every call made to them is
  appended to a log, so that output is a visible part of the state.
\<close>

datatype serial_call =
    Print_str string
  | Print_num nat
  | Print_float real nat
  | Println

datatype oled_call =
    DrawBitmap int int int int
  | Rect int int int int
  | SetCursorXY int int
  | SetScale int
  | Printf string real
  | Update

record globals =
  caliper_raw_data :: "32 word"
  bit_counter :: "8 word"
  new_packet_ready :: bool
  last_interrupt_time :: "32 word"
  oledTimer :: "8 word"
  measurement :: real
  inch :: bool
  serial :: "serial_call list"
  oled :: "oled_call list"

text \<open>The static initialisers of the globals (lines 32--49); both device logs start empty.\<close>

definition init_globals :: globals where
  "init_globals =
     \<lparr>caliper_raw_data = 0, bit_counter = 0, new_packet_ready = False,
      last_interrupt_time = 0, oledTimer = 0, measurement = 0, inch = False,
      serial = [], oled = []\<rparr>"

definition PACKET_TIMEOUT_US :: "32 word" where
  "PACKET_TIMEOUT_US = 5000"

definition UPDATE_OLED_PERIOD :: "8 word" where
  "UPDATE_OLED_PERIOD = 100"

definition rulerStartX :: int where
  "rulerStartX = 29"

section \<open>Platform macros\<close>

text \<open>
  Modelled from the spec: the macro \<^verbatim>\<open>bitRead\<close> belongs to the board's core library and
  is not among the sources. The spec (4.3, step 3) reads single bits of the flag nibble
  with it; \<open>bitRead value b\<close> is bit \<open>b\<close> of \<open>value\<close> as the number 0 or 1.
\<close>

definition bitRead :: "'a::len word \<Rightarrow> nat \<Rightarrow> 'a word" where
  "bitRead val b = drop_bit b val AND 1"

text \<open>
  Modelled from the spec: the macro \<^verbatim>\<open>constrain\<close> belongs to the board's core library and
  is not among the sources. The spec (4.3, step 5) describes it as clamping to the
  inclusive range between its second and third argument; on \<^verbatim>\<open>long\<close> the comparisons
  are signed.
\<close>

definition constrain :: "32 word \<Rightarrow> 32 word \<Rightarrow> 32 word \<Rightarrow> 32 word" where
  "constrain amt low high =
     (if amt <s low then low else if high <s amt then high else amt)"

section \<open>The bit sampler\<close>

text \<open>
  \<^verbatim>\<open>read_bit\<close> (lines 56--88) is the interrupt routine of the rising clock edge. Its two
  inputs from the platform are parameters here: \<open>current_time\<close> is the value returned by
  \<^verbatim>\<open>micros()\<close>, and \<open>data_high\<close> tells whether \<^verbatim>\<open>digitalRead(DATA_PIN) == HIGH\<close>.
\<close>

definition read_bit :: "32 word \<Rightarrow> bool \<Rightarrow> globals \<Rightarrow> globals" where
  "read_bit current_time data_high g0 =
     (let g1 = (if current_time - last_interrupt_time g0 > PACKET_TIMEOUT_US
                then g0\<lparr>bit_counter := 0, caliper_raw_data := 0\<rparr>
                else g0);
          g2 = g1\<lparr>last_interrupt_time := current_time\<rparr>;
          g3 = (if bit_counter g2 < 24
                then (let g' = (if data_high
                                then g2\<lparr>caliper_raw_data :=
                                          caliper_raw_data g2 OR push_bit (unat (bit_counter g2)) 1\<rparr>
                                else g2);
                          temp = bit_counter g';
                          temp = temp + 1
                      in g'\<lparr>bit_counter := temp\<rparr>)
                else g2)
      in if bit_counter g3 = 24 then g3\<lparr>new_packet_ready := True\<rparr> else g3)"

section \<open>Diagnostic output and display\<close>

text \<open>
  \<^verbatim>\<open>print_binary\<close> (lines 95--100) counts \<^verbatim>\<open>i\<close> down from \<^verbatim>\<open>bits - 1\<close> to 0; the argument
  \<open>Suc i\<close> of the recursion is the number of bits still to print, so \<open>i\<close> is the index
  being printed.
\<close>

fun print_binary :: "32 word \<Rightarrow> nat \<Rightarrow> serial_call list" where
  "print_binary val 0 = []"
| "print_binary val (Suc i) =
     Print_num (unat (bitRead val i))
       # (if i mod 4 = 0 then [Print_str '' ''] else [])
       @ print_binary val i"

definition printResultToOutput :: "32 word \<Rightarrow> 8 word \<Rightarrow> globals \<Rightarrow> globals" where
  "printResultToOutput binaryData flags g =
     g\<lparr>serial := serial g
          @ [Print_str ''Binary data: '']
          @ print_binary binaryData 24
          @ [Print_str '' | Value: '', Print_float (measurement g) 2, Print_str '' mm'',
             Print_str '' | Flags: '']
          @ print_binary (ucast flags) 4
          @ [Println]\<rparr>"

definition fillMeasuredDistanceOnRuler :: "globals \<Rightarrow> globals" where
  "fillMeasuredDistanceOnRuler g =
     (if measurement g < 0 \<or> measurement g > 150 then g
      else g\<lparr>oled := oled g
                 @ [DrawBitmap 23 0 82 15,
                    Rect rulerStartX 5 (\<lceil>measurement g / 2.5\<rceil> + rulerStartX) 9]\<rparr>)"

definition drawMeasuredValue :: "globals \<Rightarrow> globals" where
  "drawMeasuredValue g =
     g\<lparr>oled := oled g
          @ [SetCursorXY 18 16, SetScale 2,
             if inch g then Printf ''%0.3f inch  '' (measurement g)
             else Printf ''%0.2f mm  '' (measurement g)]\<rparr>"

text \<open>\<open>millis\<close> is the value returned by \<^verbatim>\<open>millis()\<close>, truncated to \<^verbatim>\<open>uint8_t\<close> as in line 127.\<close>

definition updateOled :: "32 word \<Rightarrow> bool \<Rightarrow> globals \<Rightarrow> globals" where
  "updateOled millis force g =
     (let ms = (ucast millis :: 8 word)
      in if force \<or> ms - oledTimer g \<ge> UPDATE_OLED_PERIOD
         then (let g = g\<lparr>oledTimer := ms\<rparr>;
                   g = fillMeasuredDistanceOnRuler g;
                   g = drawMeasuredValue g
               in g\<lparr>oled := oled g @ [Update]\<rparr>)
         else g)"

section \<open>The packet decoder\<close>

text \<open>
  \<^verbatim>\<open>handleData\<close> (lines 137--156). The local \<^verbatim>\<open>integerMeasurement\<close> is a \<^verbatim>\<open>long\<close>; the
  three definitions below are its values after line 140, after line 147 and after
  line 150, and \<open>flags_of\<close> is the local \<^verbatim>\<open>flags\<close> of line 144.
\<close>

definition flags_of :: "32 word \<Rightarrow> 8 word" where
  "flags_of data_copy = ucast (drop_bit 20 data_copy AND 0x0F)"

definition integerMeasurement_raw :: "32 word \<Rightarrow> 32 word" where
  "integerMeasurement_raw data_copy = data_copy AND 0x0FFFFF"

definition integerMeasurement_signed :: "32 word \<Rightarrow> 32 word" where
  "integerMeasurement_signed data_copy =
     integerMeasurement_raw data_copy
       * (if bitRead (flags_of data_copy) 0 \<noteq> 0 then - 1 else 1)"

definition integerMeasurement_limited :: "32 word \<Rightarrow> 32 word" where
  "integerMeasurement_limited data_copy =
     constrain (integerMeasurement_signed data_copy) (- 15000) 15000"

definition handleData :: "32 word \<Rightarrow> globals \<Rightarrow> globals" where
  "handleData data_copy g =
     (let flags = flags_of data_copy;
          g = g\<lparr>inch := (bitRead flags 3 \<noteq> 0)\<rparr>;
          g = g\<lparr>measurement := real_of_int (sint (integerMeasurement_limited data_copy)) / 100\<rparr>;
          g = (if inch g then g\<lparr>measurement := measurement g / 25.4\<rparr> else g)
      in printResultToOutput data_copy flags g)"

section \<open>The main loop and the frame handoff\<close>

text \<open>
  One pass of \<^verbatim>\<open>loop\<close> (lines 197--211) with no interrupt between the test of the flag
  and the critical section. The first component of the result is the local \<^verbatim>\<open>data_copy\<close>
  handed to \<^verbatim>\<open>handleData\<close>, or \<open>None\<close> when the flag was not set and nothing was drained.
\<close>

definition loop :: "32 word \<Rightarrow> globals \<Rightarrow> 32 word option \<times> globals" where
  "loop millis g =
     (if new_packet_ready g
      then (let data_copy = caliper_raw_data g;
                g = g\<lparr>new_packet_ready := False\<rparr>;
                g = handleData data_copy g;
                g = updateOled millis False g
            in (Some data_copy, g))
      else (None, g))"

text \<open>
  An execution of the firmware is a sequence of events: a rising clock edge, served by
  the interrupt routine, or one pass of the main loop. \<open>run\<close> returns what each pass
  drained, in order, and the final state.
\<close>

datatype event = Edge "32 word" bool | Poll "32 word"

fun run :: "event list \<Rightarrow> globals \<Rightarrow> 32 word option list \<times> globals" where
  "run [] g = ([], g)"
| "run (Edge t d # es) g = run es (read_bit t d g)"
| "run (Poll ms # es) g =
     (let (r, g') = loop ms g; (rs, g'') = run es g' in (r # rs, g''))"

section \<open>Inputs used to state the properties\<close>

text \<open>
  A sequence of rising edges, each with the timestamp read by the interrupt routine and
  the level of the data line, fed to \<open>read_bit\<close> one after the other.
\<close>

fun edges :: "(32 word \<times> bool) list \<Rightarrow> globals \<Rightarrow> globals" where
  "edges [] g = g"
| "edges ((t, d) # es) g = edges es (read_bit t d g)"

text \<open>
  \<open>small_gaps l es\<close>: starting from the previous edge at \<open>l\<close>, no gap between successive
  edges exceeds the timeout, the gap being the wrapping difference of the two timestamps
  that line 59 computes.
\<close>

fun small_gaps :: "32 word \<Rightarrow> (32 word \<times> bool) list \<Rightarrow> bool" where
  "small_gaps l [] = True"
| "small_gaps l ((t, d) # es) = (t - l \<le> 5000 \<and> small_gaps t es)"

text \<open>
  The 24 edges of one frame \<open>w\<close>, least significant bit first, 100 microseconds apart,
  the first one at \<open>t0\<close>.
\<close>

definition frame_edges :: "32 word \<Rightarrow> 32 word \<Rightarrow> event list" where
  "frame_edges t0 w = map (\<lambda>i. Edge (t0 + 100 * word_of_nat i) (bit w i)) [0..<24]"

text \<open>
  The frame layout of the wire protocol (spec, section 6, and the comments of lines
  138--148): bits 0--19 carry the magnitude in hundredths of a millimetre, bit 20 the
  sign, bit 23 the unit. The caliper does this encoding; it is not part of the firmware.
\<close>

definition spec_encode_frame :: "nat \<Rightarrow> bool \<Rightarrow> bool \<Rightarrow> 32 word" where
  "spec_encode_frame h s u = word_of_nat h OR push_bit 20 (of_bool s) OR push_bit 23 (of_bool u)"

text \<open>
  The accumulator invariant in executable form: the counter is at most 24 and shifting
  the bits below the counter out of \<open>caliper_raw_data\<close> leaves nothing.
\<close>

definition acc_inv :: "globals \<Rightarrow> bool" where
  "acc_inv g \<longleftrightarrow> bit_counter g \<le> 24 \<and> drop_bit (unat (bit_counter g)) (caliper_raw_data g) = 0"

section \<open>Properties of the packet decoder\<close>

lemma bitRead_nonzero: "bitRead w n \<noteq> 0 \<longleftrightarrow> bit w n"
  unfolding bitRead_def
  by (simp add: bit_iff_odd_drop_bit and_one_eq even_iff_mod_2_eq_zero)

lemma flags_bit0: "bit (flags_of f) 0 \<longleftrightarrow> bit f 20"
  unfolding flags_of_def by (simp add: bit_simps)

lemma flags_bit3: "bit (flags_of f) 3 \<longleftrightarrow> bit f 23"
  unfolding flags_of_def by (simp add: bit_simps)

lemma raw_take_bit: "integerMeasurement_raw f = take_bit 20 f"
  unfolding integerMeasurement_raw_def
  by (simp add: take_bit_eq_mask mask_eq_exp_minus_1)

lemma raw_bound: "uint (integerMeasurement_raw f) < 2 ^ 20"
proof -
  have "take_bit 20 (uint f) < 2 ^ 20" by (rule take_bit_int_less_exp)
  then show ?thesis by (simp add: raw_take_bit unsigned_take_bit_eq)
qed

lemma sint_raw: "sint (integerMeasurement_raw f) = uint (integerMeasurement_raw f)"
proof -
  have "signed_take_bit (31::nat) (uint (integerMeasurement_raw f)) = uint (integerMeasurement_raw f)"
  proof (rule signed_take_bit_int_eq_self)
    show "- (2 ^ 31) \<le> uint (integerMeasurement_raw f)"
      by (rule order_trans [of _ 0]) simp_all
    show "uint (integerMeasurement_raw f) < 2 ^ 31"
      using raw_bound [of f] by simp
  qed
  then show ?thesis by (simp add: sint_uint)
qed

lemma sint_signed:
  "sint (integerMeasurement_signed f) =
     (if bit f 20 then - uint (integerMeasurement_raw f) else uint (integerMeasurement_raw f))"
proof -
  have "signed_take_bit (31::nat) (- uint (integerMeasurement_raw f)) = - uint (integerMeasurement_raw f)"
  proof (rule signed_take_bit_int_eq_self)
    show "- (2 ^ 31) \<le> - uint (integerMeasurement_raw f)"
      using raw_bound [of f] by simp
    show "- uint (integerMeasurement_raw f) < 2 ^ 31"
      by (rule le_less_trans [of _ 0]) simp_all
  qed
  then have "sint (- integerMeasurement_raw f) = - uint (integerMeasurement_raw f)"
    by (simp add: sint_word_minus sint_raw)
  then show ?thesis
    by (simp add: integerMeasurement_signed_def bitRead_nonzero flags_bit0 sint_raw)
qed

lemma sint_constrain:
  "sint (constrain a (- 15000) 15000) = max (- 15000) (min 15000 (sint a))"
  by (simp add: constrain_def word_sless_alt)

lemma sint_limited:
  "sint (integerMeasurement_limited f) =
     max (- 15000) (min 15000
       (if bit f 20 then - uint (integerMeasurement_raw f) else uint (integerMeasurement_raw f)))"
  unfolding integerMeasurement_limited_def sint_constrain sint_signed ..

lemma handleData_measurement:
  "measurement (handleData f g) =
     (if bit f 23 then real_of_int (sint (integerMeasurement_limited f)) / 100 / 25.4
      else real_of_int (sint (integerMeasurement_limited f)) / 100)"
  by (simp add: handleData_def Let_def printResultToOutput_def bitRead_nonzero flags_bit3)

lemma handleData_inch: "inch (handleData f g) = bit f 23"
  by (simp add: handleData_def Let_def printResultToOutput_def bitRead_nonzero flags_bit3)

text \<open>
  Claim C1. For every frame the decoder has a result (\<open>handleData\<close> is a total function
  with no failing branch): the signed value taken from the low 20 bits and the sign bit is
  limited to the range from -15000 to 15000 hundredths of a millimetre, and the
  millimetre value obtained by dividing it by 100, before the conversion to inches, lies
  between -150 and 150. The stored measurement is that value, divided by 25.4 when the
  unit bit is set.
\<close>

theorem handleData_range:
  "(let h = sint (integerMeasurement_limited frame);
        mm = real_of_int h / 100
    in - 15000 \<le> h \<and> h \<le> 15000
       \<and> h = max (- 15000) (min 15000
               (if bit frame 20 then - uint (take_bit 20 frame) else uint (take_bit 20 frame)))
       \<and> - 150 \<le> mm \<and> mm \<le> 150
       \<and> measurement (handleData frame g) = (if bit frame 23 then mm / 25.4 else mm))"
proof -
  define h where "h = sint (integerMeasurement_limited frame)"
  have eq: "h = max (- 15000) (min 15000
               (if bit frame 20 then - uint (take_bit 20 frame) else uint (take_bit 20 frame)))"
    unfolding h_def sint_limited raw_take_bit ..
  then have lo: "- 15000 \<le> h" and hi: "h \<le> 15000" by simp_all
  from lo have "real_of_int (- 15000) \<le> real_of_int h" by (simp only: of_int_le_iff)
  then have lo': "- 150 \<le> real_of_int h / 100" by simp
  from hi have "real_of_int h \<le> real_of_int 15000" by (simp only: of_int_le_iff)
  then have hi': "real_of_int h / 100 \<le> 150" by simp
  show ?thesis
    unfolding Let_def h_def [symmetric]
    using eq lo hi lo' hi' by (simp add: handleData_measurement h_def)
qed

lemma bit_reserved: "bit (0x600000 :: 32 word) n \<longleftrightarrow> n = 21 \<or> n = 22"
proof -
  have e: "(0x600000 :: 32 word) = push_bit 21 (mask 2)"
    by (simp add: mask_eq_exp_minus_1)
  have "bit (push_bit 21 (mask 2) :: 32 word) n \<longleftrightarrow> n = 21 \<or> n = 22"
    unfolding bit_push_bit_iff bit_mask_iff by auto
  then show ?thesis by (simp only: e)
qed

lemma reserved_bits:
  assumes "f1 AND NOT 0x600000 = f2 AND NOT (0x600000 :: 32 word)"
  shows "integerMeasurement_raw f1 = integerMeasurement_raw f2"
    and "bit f1 20 = bit f2 20" and "bit f1 23 = bit f2 23"
proof -
  have b: "bit (f1 AND NOT 0x600000) n = bit (f2 AND NOT 0x600000) n" for n
    using assms by (rule arg_cong)
  have c: "bit f1 n = bit f2 n" if "n \<noteq> 21" "n \<noteq> 22" for n
    using b [of n] that unfolding bit_and_iff bit_not_iff bit_reserved
    by (auto dest: bit_imp_le_length)
  have "take_bit 20 f1 = take_bit 20 f2"
    by (rule bit_eqI) (auto simp add: bit_take_bit_iff c)
  then show "integerMeasurement_raw f1 = integerMeasurement_raw f2"
    by (simp only: raw_take_bit)
  show "bit f1 20 = bit f2 20" by (rule c) simp_all
  show "bit f1 23 = bit f2 23" by (rule c) simp_all
qed

lemma limited_cong:
  assumes "integerMeasurement_raw f1 = integerMeasurement_raw f2" and "bit f1 20 = bit f2 20"
  shows "integerMeasurement_limited f1 = integerMeasurement_limited f2"
  using assms
  by (simp add: integerMeasurement_limited_def integerMeasurement_signed_def bitRead_nonzero flags_bit0)

text \<open>
  Claim C8. Two frames that agree on every bit except bits 21 and 22 decode to the same
  measurement and the same unit flag.
\<close>

theorem reserved_bits_ignored:
  assumes "f1 AND NOT 0x600000 = f2 AND NOT (0x600000 :: 32 word)"
  shows "measurement (handleData f1 g) = measurement (handleData f2 g)
         \<and> inch (handleData f1 g) = inch (handleData f2 g)"
proof -
  note r = reserved_bits [OF assms]
  have "integerMeasurement_limited f1 = integerMeasurement_limited f2"
    using r(1) r(2) by (rule limited_cong)
  then show ?thesis
    by (simp add: handleData_measurement handleData_inch r(3))
qed

theorem reserved_bits_ignored_witness:
  "(0x103A5E :: 32 word) AND NOT 0x600000 = 0x703A5E AND NOT 0x600000
   \<and> measurement (handleData 0x103A5E init_globals) = measurement (handleData 0x703A5E init_globals)
   \<and> inch (handleData 0x103A5E init_globals) = inch (handleData 0x703A5E init_globals)
   \<and> measurement (handleData 0x703A5E init_globals) = - (7471 / 50)"
proof -
  have h: "(0x103A5E :: 32 word) AND NOT 0x600000 = 0x703A5E AND NOT 0x600000" by simp
  have v: "measurement (handleData 0x703A5E init_globals) = - (7471 / 50)"
    by (simp add: handleData_def printResultToOutput_def flags_of_def bitRead_def
        integerMeasurement_limited_def integerMeasurement_signed_def integerMeasurement_raw_def
        constrain_def)
  show ?thesis
    using h v reserved_bits_ignored [OF h, of init_globals] by simp
qed

section \<open>Properties of the bit sampler\<close>

lemma read_bit_restart:
  assumes "current_time - last_interrupt_time g > PACKET_TIMEOUT_US"
  shows "read_bit current_time d g =
           g\<lparr>bit_counter := 1, caliper_raw_data := of_bool d, last_interrupt_time := current_time\<rparr>"
  using assms by (simp add: read_bit_def Let_def)

lemma read_bit_continue:
  assumes "\<not> current_time - last_interrupt_time g > PACKET_TIMEOUT_US" and "bit_counter g < 24"
  shows "read_bit current_time d g =
           g\<lparr>last_interrupt_time := current_time,
             caliper_raw_data := (if d then caliper_raw_data g OR push_bit (unat (bit_counter g)) 1
                                  else caliper_raw_data g),
             bit_counter := bit_counter g + 1,
             new_packet_ready := (new_packet_ready g \<or> bit_counter g = 23)\<rparr>"
  using assms by (auto simp add: read_bit_def Let_def)

lemma read_bit_full:
  assumes "\<not> current_time - last_interrupt_time g > PACKET_TIMEOUT_US" and "bit_counter g = 24"
  shows "read_bit current_time d g =
           g\<lparr>last_interrupt_time := current_time, new_packet_ready := True\<rparr>"
  using assms by (simp add: read_bit_def Let_def)

lemma drop_bit_zero_iff:
  "drop_bit n (w :: 32 word) = 0 \<longleftrightarrow> (\<forall>i\<ge>n. \<not> bit w i)"
proof
  assume z: "drop_bit n w = 0"
  show "\<forall>i\<ge>n. \<not> bit w i"
  proof (intro allI impI)
    fix i assume "n \<le> i"
    have "bit (drop_bit n w) (i - n) = bit w (n + (i - n))" by (simp add: bit_drop_bit_eq)
    with z \<open>n \<le> i\<close> show "\<not> bit w i" by simp
  qed
next
  assume a: "\<forall>i\<ge>n. \<not> bit w i"
  show "drop_bit n w = 0"
    by (rule bit_eqI) (simp add: bit_drop_bit_eq a)
qed

lemma unat_bc_succ:
  fixes c :: "8 word"
  assumes "c < 24"
  shows "unat (c + 1) = Suc (unat c)" and "c + 1 \<le> 24"
proof -
  from assms have "unat c < 24" by (simp add: word_less_nat_alt)
  then show "unat (c + 1) = Suc (unat c)" by (simp add: unat_word_ariths)
  with \<open>unat c < 24\<close> show "c + 1 \<le> 24" by (simp add: word_le_nat_alt)
qed

lemma acc_inv_init: "acc_inv init_globals"
  by (simp add: acc_inv_def init_globals_def)

lemma acc_inv_read_bit:
  assumes "acc_inv g"
  shows "acc_inv (read_bit t d g)"
proof (cases "t - last_interrupt_time g > PACKET_TIMEOUT_US")
  case True
  have "drop_bit (Suc 0) (of_bool d :: 32 word) = 0" by (cases d) simp_all
  then show ?thesis by (simp add: read_bit_restart [OF True] acc_inv_def)
next
  case False
  show ?thesis
  proof (cases "bit_counter g < 24")
    case lt: True
    have z: "\<forall>i\<ge>unat (bit_counter g). \<not> bit (caliper_raw_data g) i"
      using assms by (simp add: acc_inv_def drop_bit_zero_iff)
    have "\<forall>i\<ge>Suc (unat (bit_counter g)).
            \<not> bit (if d then caliper_raw_data g OR push_bit (unat (bit_counter g)) 1
                    else caliper_raw_data g) i"
      using z by (auto simp add: bit_or_iff bit_exp_iff)
    then show ?thesis
      by (simp add: read_bit_continue [OF False lt] acc_inv_def unat_bc_succ [OF lt]
          drop_bit_zero_iff del: drop_bit_Suc)
  next
    case ge: False
    with assms have "bit_counter g = 24" by (simp add: acc_inv_def)
    from read_bit_full [OF False this] assms show ?thesis by (simp add: acc_inv_def)
  qed
qed

lemma loop_accumulator:
  "caliper_raw_data (snd (loop ms g)) = caliper_raw_data g"
  "bit_counter (snd (loop ms g)) = bit_counter g"
  "last_interrupt_time (snd (loop ms g)) = last_interrupt_time g"
  by (simp_all add: loop_def Let_def handleData_def printResultToOutput_def updateOled_def
      fillMeasuredDistanceOnRuler_def drawMeasuredValue_def)

lemma acc_inv_loop: "acc_inv g \<Longrightarrow> acc_inv (snd (loop ms g))"
  by (simp add: acc_inv_def loop_accumulator)

lemma acc_inv_run: "acc_inv g \<Longrightarrow> acc_inv (snd (run es g))"
proof (induction es arbitrary: g)
  case Nil
  then show ?case by simp
next
  case (Cons e es)
  show ?case
  proof (cases e)
    case (Edge t d)
    with Cons show ?thesis by (simp add: acc_inv_read_bit)
  next
    case (Poll ms)
    have "acc_inv (snd (run es (snd (loop ms g))))"
      by (rule Cons.IH) (rule acc_inv_loop [OF Cons.prems])
    with Poll show ?thesis by (simp add: split_beta Let_def)
  qed
qed

text \<open>
  Claim C4. In every state reached from the initial state by rising edges and passes of
  the main loop, in any order, \<open>bit_counter\<close> is between 0 and 24 and every bit of
  \<open>caliper_raw_data\<close> at a position from \<open>bit_counter\<close> upwards is zero.
\<close>

theorem accumulator_invariant:
  "unat (bit_counter (snd (run es init_globals))) \<le> 24
   \<and> (\<forall>i. unat (bit_counter (snd (run es init_globals))) \<le> i
          \<longrightarrow> \<not> bit (caliper_raw_data (snd (run es init_globals))) i)"
proof -
  have "acc_inv (snd (run es init_globals))"
    by (rule acc_inv_run) (rule acc_inv_init)
  then show ?thesis
    by (simp add: acc_inv_def drop_bit_zero_iff word_le_nat_alt)
qed

theorem accumulator_invariant_witness:
  "bit_counter (snd (run [Edge 6000 True, Edge 6100 True, Poll 7, Edge 6200 True] init_globals)) = 3
   \<and> \<not> bit (caliper_raw_data
              (snd (run [Edge 6000 True, Edge 6100 True, Poll 7, Edge 6200 True] init_globals))) 3"
proof -
  have c: "bit_counter (snd (run [Edge 6000 True, Edge 6100 True, Poll 7, Edge 6200 True] init_globals)) = 3"
    by code_simp
  from accumulator_invariant [of "[Edge 6000 True, Edge 6100 True, Poll 7, Edge 6200 True]"]
  show ?thesis unfolding c by simp
qed

text \<open>
  Claim C10. An edge that arrives while \<open>bit_counter\<close> is 24, no later than the timeout
  after the previous edge, leaves \<open>caliper_raw_data\<close> and \<open>bit_counter\<close> as they are,
  stores its timestamp and sets \<open>new_packet_ready\<close>, whatever the flag was before; the next
  pass of the main loop then drains the same frame.
\<close>

theorem extra_edge_rearms:
  assumes "bit_counter g = 24" and "t - last_interrupt_time g \<le> PACKET_TIMEOUT_US"
  shows "caliper_raw_data (read_bit t d g) = caliper_raw_data g
         \<and> bit_counter (read_bit t d g) = bit_counter g
         \<and> last_interrupt_time (read_bit t d g) = t
         \<and> new_packet_ready (read_bit t d g)
         \<and> fst (loop ms (read_bit t d g)) = Some (caliper_raw_data g)"
proof -
  from assms(2) have "\<not> t - last_interrupt_time g > PACKET_TIMEOUT_US" by simp
  from read_bit_full [OF this assms(1)] show ?thesis
    by (simp add: loop_def Let_def)
qed

theorem extra_edge_rearms_witness:
  "\<not> new_packet_ready (snd (run (frame_edges 6000 0x3A5E @ [Poll 0]) init_globals))
   \<and> new_packet_ready
        (read_bit 8400 False (snd (run (frame_edges 6000 0x3A5E @ [Poll 0]) init_globals)))
   \<and> fst (loop 1 (read_bit 8400 False (snd (run (frame_edges 6000 0x3A5E @ [Poll 0]) init_globals))))
       = Some 0x3A5E"
proof -
  define g where "g = snd (run (frame_edges 6000 0x3A5E @ [Poll 0]) init_globals)"
  have h1: "bit_counter g = 24" unfolding g_def by code_simp
  have h2: "8400 - last_interrupt_time g \<le> PACKET_TIMEOUT_US" unfolding g_def by code_simp
  have h3: "\<not> new_packet_ready g" unfolding g_def by code_simp
  have h4: "caliper_raw_data g = 0x3A5E" unfolding g_def by code_simp
  from extra_edge_rearms [OF h1 h2, of False 1] h3 h4 show ?thesis
    unfolding g_def [symmetric] by simp
qed

lemma timeout_iff:
  "t - l > PACKET_TIMEOUT_US \<longleftrightarrow> 5000 < (uint t - uint l) mod 2 ^ 32"
  by (simp add: PACKET_TIMEOUT_US_def word_less_def uint_word_ariths(2))

lemma elapsed_gap:
  fixes l :: "32 word"
  assumes "d < 2 ^ 32"
  shows "(uint (l + word_of_nat d) - uint l) mod 2 ^ 32 = int d"
proof -
  have "uint ((l + word_of_nat d) - l) = (uint (l + word_of_nat d) - uint l) mod 2 ^ LENGTH(32)"
    by (rule uint_word_ariths(2))
  then have "(uint (l + word_of_nat d) - uint l) mod 2 ^ 32 = uint (word_of_nat d :: 32 word)"
    by simp
  also have "\<dots> = int (unat (word_of_nat d :: 32 word))" by simp
  also have "\<dots> = int d" using assms by (simp add: unat_of_nat del: of_nat_unat)
  finally show ?thesis .
qed

text \<open>
  Claim C7. \<open>read_bit\<close> decides on a new frame by the difference of the two timestamps
  modulo \<open>2 ^ 32\<close>: the accumulator restarts exactly when that difference exceeds 5000.
  When the current timestamp is the previous one advanced by \<open>d\<close> microseconds, \<open>d\<close> below
  \<open>2 ^ 32\<close>, with the addition wrapping, the difference is \<open>d\<close>.
\<close>

theorem read_bit_gap_modular:
  "(let gap = (uint t - uint (last_interrupt_time g)) mod 2 ^ 32
    in bit_counter (read_bit t b g) =
         (if 5000 < gap then 1
          else if bit_counter g < 24 then bit_counter g + 1 else bit_counter g)
       \<and> caliper_raw_data (read_bit t b g) =
           (if 5000 < gap then of_bool b
            else if bit_counter g < 24 \<and> b
                 then caliper_raw_data g OR push_bit (unat (bit_counter g)) 1
                 else caliper_raw_data g)
       \<and> last_interrupt_time (read_bit t b g) = t
       \<and> (\<forall>d < 2 ^ 32. t = last_interrupt_time g + word_of_nat d \<longrightarrow> gap = int d))"
proof -
  have a: "\<forall>d < 2 ^ 32. t = last_interrupt_time g + word_of_nat d \<longrightarrow>
             (uint t - uint (last_interrupt_time g)) mod 2 ^ 32 = int d"
    using elapsed_gap by blast
  have b: "bit_counter (read_bit t b g) =
         (if 5000 < (uint t - uint (last_interrupt_time g)) mod 2 ^ 32 then 1
          else if bit_counter g < 24 then bit_counter g + 1 else bit_counter g)"
    unfolding timeout_iff [symmetric] by (simp add: read_bit_def Let_def)
  have c: "caliper_raw_data (read_bit t b g) =
           (if 5000 < (uint t - uint (last_interrupt_time g)) mod 2 ^ 32 then of_bool b
            else if bit_counter g < 24 \<and> b
                 then caliper_raw_data g OR push_bit (unat (bit_counter g)) 1
                 else caliper_raw_data g)"
    unfolding timeout_iff [symmetric] by (simp add: read_bit_def Let_def)
  have d: "last_interrupt_time (read_bit t b g) = t"
    by (simp add: read_bit_def Let_def)
  show ?thesis unfolding Let_def using a b c d by (intro conjI)
qed

theorem read_bit_gap_modular_witness:
  "(300::nat) < 2 ^ 32
   \<and> (44 :: 32 word) = last_interrupt_time (read_bit 0xFFFFFF00 True init_globals) + word_of_nat 300
   \<and> bit_counter (read_bit 44 True (read_bit 0xFFFFFF00 True init_globals)) = 2
   \<and> caliper_raw_data (read_bit 44 True (read_bit 0xFFFFFF00 True init_globals)) = 3
   \<and> bit_counter (read_bit 5744 True (read_bit 0xFFFFFF00 True init_globals)) = 1"
proof -
  define g where "g = read_bit 0xFFFFFF00 True init_globals"
  have l: "last_interrupt_time g = 0xFFFFFF00" unfolding g_def by code_simp
  have c: "bit_counter g = 1" unfolding g_def by code_simp
  have r: "caliper_raw_data g = 1" unfolding g_def by code_simp
  note m = read_bit_gap_modular [of 44 g True, unfolded Let_def l c r]
  note n = read_bit_gap_modular [of 5744 g True, unfolded Let_def l c r]
  from m have "(uint (44 :: 32 word) - uint (0xFFFFFF00 :: 32 word)) mod 2 ^ 32 = int 300"
    by simp
  with m n l show ?thesis unfolding g_def [symmetric] by simp
qed

lemma edges_small_gaps:
  assumes "small_gaps (last_interrupt_time g) es" and "bit_counter g \<le> 24"
  shows "bit_counter (edges es g) = word_of_nat (min 24 (unat (bit_counter g) + length es))
         \<and> (\<forall>i. bit (caliper_raw_data (edges es g)) i \<longleftrightarrow>
                bit (caliper_raw_data g) i
                \<or> (unat (bit_counter g) \<le> i \<and> i < 24 \<and> i - unat (bit_counter g) < length es
                    \<and> snd (es ! (i - unat (bit_counter g)))))"
  using assms
proof (induction es arbitrary: g)
  case Nil
  then show ?case by (simp add: word_le_nat_alt)
next
  case (Cons e es)
  obtain t d where e: "e = (t, d)" by (cases e)
  from Cons.prems e have gap: "\<not> t - last_interrupt_time g > PACKET_TIMEOUT_US"
    and rest: "small_gaps t es"
    by (auto simp add: PACKET_TIMEOUT_US_def)
  show ?case
  proof (cases "bit_counter g < 24")
    case True
    note rb = read_bit_continue [OF gap True, of d]
    have u: "unat (bit_counter g) < 24" using True by (simp add: word_less_nat_alt)
    have l': "last_interrupt_time (read_bit t d g) = t" by (simp add: rb)
    have c': "bit_counter (read_bit t d g) = bit_counter g + 1" by (simp add: rb)
    have r': "caliper_raw_data (read_bit t d g) =
               (if d then caliper_raw_data g OR push_bit (unat (bit_counter g)) 1
                else caliper_raw_data g)" by (simp add: rb)
    have ih: "bit_counter (edges es (read_bit t d g)) =
                word_of_nat (min 24 (unat (bit_counter (read_bit t d g)) + length es))
              \<and> (\<forall>i. bit (caliper_raw_data (edges es (read_bit t d g))) i \<longleftrightarrow>
                bit (caliper_raw_data (read_bit t d g)) i
                \<or> (unat (bit_counter (read_bit t d g)) \<le> i \<and> i < 24
                    \<and> i - unat (bit_counter (read_bit t d g)) < length es
                    \<and> snd (es ! (i - unat (bit_counter (read_bit t d g))))))"
      by (rule Cons.IH) (simp_all add: l' rest c' unat_bc_succ [OF True])
    have b1: "bit_counter (edges (e # es) g) =
               word_of_nat (min 24 (unat (bit_counter g) + length (e # es)))"
      using ih by (simp add: e c' unat_bc_succ [OF True])
    have b2: "bit (caliper_raw_data (edges (e # es) g)) i \<longleftrightarrow>
                bit (caliper_raw_data g) i
                \<or> (unat (bit_counter g) \<le> i \<and> i < 24 \<and> i - unat (bit_counter g) < length (e # es)
                    \<and> snd ((e # es) ! (i - unat (bit_counter g))))" for i
    proof (cases "i = unat (bit_counter g)")
      case True
      with ih u show ?thesis
        by (simp add: e c' r' unat_bc_succ [OF \<open>bit_counter g < 24\<close>] bit_or_iff bit_exp_iff)
    next
      case False
      then have "(e # es) ! (i - unat (bit_counter g)) = es ! (i - Suc (unat (bit_counter g)))"
        if "unat (bit_counter g) \<le> i"
        using that by (simp add: nth_Cons')
      with False ih u show ?thesis
        by (auto simp add: e c' r' unat_bc_succ [OF \<open>bit_counter g < 24\<close>] bit_or_iff bit_exp_iff)
    qed
    from b1 b2 show ?thesis by blast
  next
    case False
    with Cons.prems have full: "bit_counter g = 24" by simp
    note rb = read_bit_full [OF gap full, of d]
    have ih: "bit_counter (edges es (read_bit t d g)) =
                word_of_nat (min 24 (unat (bit_counter (read_bit t d g)) + length es))
              \<and> (\<forall>i. bit (caliper_raw_data (edges es (read_bit t d g))) i \<longleftrightarrow>
                bit (caliper_raw_data (read_bit t d g)) i
                \<or> (unat (bit_counter (read_bit t d g)) \<le> i \<and> i < 24
                    \<and> i - unat (bit_counter (read_bit t d g)) < length es
                    \<and> snd (es ! (i - unat (bit_counter (read_bit t d g))))))"
      by (rule Cons.IH) (simp_all add: rb rest full)
    then show ?thesis by (simp add: e rb full cong: conj_cong)
  qed
qed

lemma bit_horner_window:
  assumes "u \<le> 24" and "u \<le> i"
  shows "bit (horner_sum of_bool 2 (take (24 - u) bs) :: 32 word) (i - u)
         \<longleftrightarrow> i < 24 \<and> i - u < length bs \<and> bs ! (i - u)"
proof (cases "i < 24 \<and> i - u < length bs")
  case True
  with assms have "i - u < 24 - u" by arith
  with True show ?thesis
    unfolding bit_horner_sum_bit_word_iff by simp
next
  case False
  with assms have "\<not> i - u < min LENGTH(32) (length (take (24 - u) bs))"
    by (simp add: not_less) arith
  with False show ?thesis
    unfolding bit_horner_sum_bit_word_iff by blast
qed

lemma edges_small_gaps_horner:
  assumes "small_gaps (last_interrupt_time g) es" and "bit_counter g \<le> 24"
  shows "caliper_raw_data (edges es g) =
           caliper_raw_data g
             OR push_bit (unat (bit_counter g))
                  (horner_sum of_bool 2 (take (24 - unat (bit_counter g)) (map snd es)))"
proof (rule bit_eqI)
  fix i
  assume "possible_bit TYPE(32 word) i"
  then have i: "i < 32" by (simp add: possible_bit_word)
  from assms(2) have u: "unat (bit_counter g) \<le> 24" by (simp add: word_le_nat_alt)
  note a = edges_small_gaps [OF assms, THEN conjunct2, rule_format, of i]
  show "bit (caliper_raw_data (edges es g)) i \<longleftrightarrow>
        bit (caliper_raw_data g
             OR push_bit (unat (bit_counter g))
                  (horner_sum of_bool 2 (take (24 - unat (bit_counter g)) (map snd es)))) i"
  proof (cases "unat (bit_counter g) \<le> i")
    case True
    have "i - unat (bit_counter g) < length es \<Longrightarrow>
          map snd es ! (i - unat (bit_counter g)) = snd (es ! (i - unat (bit_counter g)))"
      by (rule nth_map)
    then show ?thesis
      unfolding a bit_or_iff bit_push_bit_iff bit_horner_window [OF u True]
      using True i by (auto simp add: possible_bit_word)
  next
    case False
    then show ?thesis
      unfolding a bit_or_iff bit_push_bit_iff by simp
  qed
qed

lemma restart_then_small_gaps:
  assumes gap: "t0 - last_interrupt_time g > PACKET_TIMEOUT_US" and small: "small_gaps t0 es"
  shows "bit_counter (edges ((t0, d0) # es) g) = word_of_nat (min 24 (Suc (length es)))"
    and "caliper_raw_data (edges ((t0, d0) # es) g) =
          horner_sum of_bool 2 (take 24 (d0 # map snd es))"
proof -
  define g' where "g' = read_bit t0 d0 g"
  have l: "last_interrupt_time g' = t0" and c: "bit_counter g' = 1"
    and r: "caliper_raw_data g' = of_bool d0"
    unfolding g'_def by (simp_all add: read_bit_restart [OF gap])
  have s: "small_gaps (last_interrupt_time g') es" using small l by simp
  have le: "bit_counter g' \<le> 24" by (simp add: c)
  have e: "edges ((t0, d0) # es) g = edges es g'" by (simp add: g'_def)
  note b = edges_small_gaps [OF s le, THEN conjunct1, unfolded c]
  then show "bit_counter (edges ((t0, d0) # es) g) = word_of_nat (min 24 (Suc (length es)))"
    unfolding e by simp
  show "caliper_raw_data (edges ((t0, d0) # es) g) =
          horner_sum of_bool 2 (take 24 (d0 # map snd es))"
    unfolding e
  proof (rule bit_eqI)
    fix i
    note a = edges_small_gaps [OF s le, THEN conjunct2, rule_format, of i, unfolded c r]
    show "bit (caliper_raw_data (edges es g')) i \<longleftrightarrow>
          bit (horner_sum of_bool 2 (take 24 (d0 # map snd es)) :: 32 word) i"
    proof (cases i)
      case 0
      then show ?thesis unfolding a bit_horner_sum_bit_word_iff
        by (simp add: bit_of_bool_iff)
    next
      case (Suc j)
      then show ?thesis unfolding a bit_horner_sum_bit_word_iff
        by (auto simp add: bit_of_bool_iff cong: conj_cong)
    qed
  qed
qed

text \<open>
  Claim C2, amended. Edges whose gaps are all at most 5000 microseconds add their bits
  to the frame in progress, bit \<open>k\<close> of the sequence at position \<open>bit_counter + k\<close>, up to
  the 24th bit, whatever the total time. An edge whose gap exceeds 5000 microseconds
  discards what was received before: after it and the edges that follow with gaps of at
  most 5000, the accumulator holds exactly their bits, least significant first.
\<close>

theorem framing_by_gaps:
  "(small_gaps (last_interrupt_time g) es \<and> bit_counter g \<le> 24 \<longrightarrow>
      bit_counter (edges es g) = word_of_nat (min 24 (unat (bit_counter g) + length es))
      \<and> caliper_raw_data (edges es g) =
          caliper_raw_data g
            OR push_bit (unat (bit_counter g))
                 (horner_sum of_bool 2 (take (24 - unat (bit_counter g)) (map snd es))))
   \<and> (t0 - last_interrupt_time g > 5000 \<and> small_gaps t0 es \<longrightarrow>
      bit_counter (edges ((t0, d0) # es) g) = word_of_nat (min 24 (Suc (length es)))
      \<and> caliper_raw_data (edges ((t0, d0) # es) g) =
          horner_sum of_bool 2 (take 24 (d0 # map snd es)))"
proof (intro conjI impI)
  assume a: "small_gaps (last_interrupt_time g) es \<and> bit_counter g \<le> 24"
  then have s: "small_gaps (last_interrupt_time g) es" and le: "bit_counter g \<le> 24"
    by (rule conjunct1, rule conjunct2)
  show "bit_counter (edges es g) = word_of_nat (min 24 (unat (bit_counter g) + length es))"
    by (rule edges_small_gaps [OF s le, THEN conjunct1])
  show "caliper_raw_data (edges es g) =
          caliper_raw_data g
            OR push_bit (unat (bit_counter g))
                 (horner_sum of_bool 2 (take (24 - unat (bit_counter g)) (map snd es)))"
    by (rule edges_small_gaps_horner [OF s le])
next
  assume a: "t0 - last_interrupt_time g > 5000 \<and> small_gaps t0 es"
  then have gap: "t0 - last_interrupt_time g > PACKET_TIMEOUT_US" and s: "small_gaps t0 es"
    by (simp_all add: PACKET_TIMEOUT_US_def)
  show "bit_counter (edges ((t0, d0) # es) g) = word_of_nat (min 24 (Suc (length es)))"
    by (rule restart_then_small_gaps(1) [OF gap s])
  show "caliper_raw_data (edges ((t0, d0) # es) g) =
          horner_sum of_bool 2 (take 24 (d0 # map snd es))"
    by (rule restart_then_small_gaps(2) [OF gap s])
qed

theorem framing_by_gaps_witness:
  "small_gaps (last_interrupt_time init_globals)
     [(100, True), (5100, True), (10100, False), (15100, True)]
   \<and> bit_counter init_globals \<le> 24
   \<and> bit_counter (edges [(100, True), (5100, True), (10100, False), (15100, True)] init_globals) = 4
   \<and> caliper_raw_data
        (edges [(100, True), (5100, True), (10100, False), (15100, True)] init_globals) = 11
   \<and> (20102 :: 32 word)
        - last_interrupt_time
            (edges [(100, True), (5100, True), (10100, False), (15100, True)] init_globals) > 5000
   \<and> small_gaps 20102 [(20200, True)]
   \<and> bit_counter
        (edges [(20102, False), (20200, True)]
           (edges [(100, True), (5100, True), (10100, False), (15100, True)] init_globals)) = 2
   \<and> caliper_raw_data
        (edges [(20102, False), (20200, True)]
           (edges [(100, True), (5100, True), (10100, False), (15100, True)] init_globals)) = 2"
proof -
  define g where "g = edges [(100, True), (5100, True), (10100, False), (15100, True)] init_globals"
  have h1: "small_gaps (last_interrupt_time init_globals)
              [(100, True), (5100, True), (10100, False), (15100, True)]
            \<and> bit_counter init_globals \<le> 24"
    by (simp add: init_globals_def)
  have h2: "(20102 :: 32 word) - last_interrupt_time g > 5000 \<and> small_gaps 20102 [(20200, True)]"
    unfolding g_def by code_simp
  note p1 = framing_by_gaps [THEN conjunct1, rule_format, OF h1]
  note p2 = framing_by_gaps [THEN conjunct2, rule_format, OF h2, of False]
  have c0: "bit_counter init_globals = 0" "caliper_raw_data init_globals = 0"
    by (simp_all add: init_globals_def)
  from p1 have q1: "bit_counter g = 4 \<and> caliper_raw_data g = 11"
    unfolding g_def c0 by simp
  from p2 have q2: "bit_counter (edges [(20102, False), (20200, True)] g) = 2
                    \<and> caliper_raw_data (edges [(20102, False), (20200, True)] g) = 2"
    by simp
  from h1 h2 q1 q2 show ?thesis unfolding g_def by blast
qed

text \<open>
  Claim C2 as stated fails for a gap of exactly 5000 microseconds: the edge at 5100
  after the edge at 100 continues the frame instead of starting a new one.
\<close>

theorem gap_of_exactly_5000_counterexample:
  "(5100 :: 32 word) - last_interrupt_time (edges [(100, True)] init_globals) = 5000
   \<and> bit_counter (edges [(100, True), (5100, True)] init_globals) = 2
   \<and> caliper_raw_data (edges [(100, True), (5100, True)] init_globals) = 3
   \<and> bit_counter (edges [(100, True), (5100, True)] init_globals) \<noteq> 1"
  by code_simp

section \<open>Encoding, effects and the frame handoff\<close>

lemma bit_of_nat_small:
  assumes "h < 2 ^ 20" and "bit (word_of_nat h :: 32 word) n"
  shows "n < 20"
proof -
  from assms(1) have "take_bit 20 h = h" by (rule take_bit_nat_eq_self)
  then have "(word_of_nat h :: 32 word) = take_bit 20 (word_of_nat h)"
    by (simp add: take_bit_of_nat)
  with assms(2) have "bit (take_bit 20 (word_of_nat h :: 32 word)) n" by simp
  then show ?thesis unfolding bit_take_bit_iff by (rule conjunct1)
qed

lemma spec_encode_frame_bit:
  assumes "h < 2 ^ 20"
  shows "bit (spec_encode_frame h s u) n \<longleftrightarrow>
           bit (word_of_nat h :: 32 word) n \<or> (n = 20 \<and> s) \<or> (n = 23 \<and> u)"
  unfolding spec_encode_frame_def bit_or_iff bit_push_bit_iff bit_of_bool_iff
  by (auto simp add: possible_bit_word)

lemma spec_encode_frame_fields:
  assumes "h < 2 ^ 20"
  shows "integerMeasurement_raw (spec_encode_frame h s u) = word_of_nat h"
    and "bit (spec_encode_frame h s u) 20 = s"
    and "bit (spec_encode_frame h s u) 23 = u"
proof -
  note b = spec_encode_frame_bit [OF assms]
  note c = bit_of_nat_small [OF assms]
  have "take_bit 20 (spec_encode_frame h s u) = (word_of_nat h :: 32 word)"
  proof (rule bit_eqI)
    fix n
    show "bit (take_bit 20 (spec_encode_frame h s u)) n \<longleftrightarrow> bit (word_of_nat h :: 32 word) n"
      unfolding bit_take_bit_iff b using c [of n] by auto
  qed
  then show "integerMeasurement_raw (spec_encode_frame h s u) = word_of_nat h"
    by (simp only: raw_take_bit)
  show "bit (spec_encode_frame h s u) 20 = s" unfolding b using c [of 20] by auto
  show "bit (spec_encode_frame h s u) 23 = u" unfolding b using c [of 23] by auto
qed

text \<open>
  Claim C6, amended. For a magnitude of at most 15000 hundredths of a millimetre, a sign
  bit and a unit bit, decoding the encoded frame gives the unit flag back and, as
  measurement, the signed magnitude in millimetres when the unit bit is clear and that
  value divided by 25.4 when it is set.
\<close>

theorem encode_decode_roundtrip:
  assumes "h \<le> 15000"
  shows "measurement (handleData (spec_encode_frame h s u) g) =
           (if u then (if s then - real h else real h) / 100 / 25.4
            else (if s then - real h else real h) / 100)
         \<and> inch (handleData (spec_encode_frame h s u) g) = u"
proof -
  define E where "E = spec_encode_frame h s u"
  from assms have small: "h < 2 ^ 20" by simp
  note f = spec_encode_frame_fields [OF small, of s u, folded E_def]
  have "unat (word_of_nat h :: 32 word) = h"
    using assms by (simp add: unat_of_nat del: of_nat_unat)
  then have v: "uint (integerMeasurement_raw E) = int h"
    unfolding f(1) by (simp del: of_nat_unat add: uint_nat)
  have e: "sint (integerMeasurement_limited E) = (if s then - int h else int h)"
    unfolding sint_limited v f(2) using assms by simp
  have "(signed (integerMeasurement_limited E) :: real) =
          real_of_int (sint (integerMeasurement_limited E))"
    by simp
  also have "\<dots> = real_of_int (if s then - int h else int h)"
    by (simp only: e)
  also have "\<dots> = (if s then - real h else real h)"
    by simp
  finally have q: "(signed (integerMeasurement_limited E) :: real) =
                     (if s then - real h else real h)" .
  have m: "measurement (handleData E g) =
           (if u then (if s then - real h else real h) / 100 / 25.4
            else (if s then - real h else real h) / 100)"
    unfolding handleData_measurement f(3) of_int_sint q ..
  have i: "inch (handleData E g) = u"
    unfolding handleData_inch f(3) ..
  from m i show ?thesis unfolding E_def ..
qed

theorem encode_decode_roundtrip_witness:
  "(14942 :: nat) \<le> 15000
   \<and> measurement (handleData (spec_encode_frame 14942 True True) init_globals) = - (14942 / 100 / 25.4)
   \<and> inch (handleData (spec_encode_frame 14942 True True) init_globals)
   \<and> measurement (handleData (spec_encode_frame 14942 False False) init_globals) = 14942 / 100
   \<and> \<not> inch (handleData (spec_encode_frame 14942 False False) init_globals)"
proof -
  have h: "(14942 :: nat) \<le> 15000" by simp
  from encode_decode_roundtrip [OF h, of True True init_globals]
    encode_decode_roundtrip [OF h, of False False init_globals]
  show ?thesis by simp
qed

text \<open>
  Claim C6 as stated fails when the unit bit is set: 149.42 mm comes back as about
  5.88, more than 143 away from the encoded magnitude.
\<close>

theorem inch_frame_counterexample:
  "\<bar>measurement (handleData (spec_encode_frame 14942 False True) init_globals) - 14942 / 100\<bar> > 143
   \<and> inch (handleData (spec_encode_frame 14942 False True) init_globals)"
  by (simp add: handleData_def printResultToOutput_def flags_of_def bitRead_def
        integerMeasurement_limited_def integerMeasurement_signed_def integerMeasurement_raw_def
        constrain_def spec_encode_frame_def)

text \<open>
  Claim C5, amended. \<open>handleData\<close> is a function of the frame and the state. It leaves
  the accumulator, the flag, both timers and the display untouched; it overwrites
  \<open>measurement\<close> and \<open>inch\<close> with values that depend on the frame only; and it appends
  to the serial output a line that depends on the frame only.
\<close>

theorem handleData_effects:
  "caliper_raw_data (handleData f g) = caliper_raw_data g
   \<and> bit_counter (handleData f g) = bit_counter g
   \<and> new_packet_ready (handleData f g) = new_packet_ready g
   \<and> last_interrupt_time (handleData f g) = last_interrupt_time g
   \<and> oledTimer (handleData f g) = oledTimer g
   \<and> oled (handleData f g) = oled g
   \<and> measurement (handleData f g) = measurement (handleData f g')
   \<and> inch (handleData f g) = inch (handleData f g')
   \<and> serial (handleData f g) = serial g @ serial (handleData f (g'\<lparr>serial := []\<rparr>))"
  by (simp add: handleData_def Let_def printResultToOutput_def)

text \<open>
  Claim C5 as stated fails: \<open>handleData\<close> writes to the serial port and changes the
  globals \<open>measurement\<close> and \<open>inch\<close>.
\<close>

theorem handleData_not_pure_counterexample:
  "serial (handleData 0 init_globals) \<noteq> serial init_globals
   \<and> measurement (handleData 100 init_globals) \<noteq> measurement init_globals
   \<and> inch (handleData 0x800000 init_globals) \<noteq> inch init_globals"
  by (simp add: handleData_def printResultToOutput_def flags_of_def bitRead_def
        integerMeasurement_limited_def integerMeasurement_signed_def integerMeasurement_raw_def
        constrain_def init_globals_def)

text \<open>
  Claim C3. The firmware hands the same frame over twice: 24 edges complete the frame
  \<open>0x3A5E\<close>, a pass of the main loop drains it, a 25th edge 100 microseconds after the
  24th sets the flag again, and the next pass drains \<open>0x3A5E\<close> once more although no
  new frame was completed.
\<close>

theorem frame_drained_twice:
  "fst (run (frame_edges 6000 0x3A5E @ [Poll 0, Edge 8400 False, Poll 1]) init_globals)
     = [Some 0x3A5E, Some 0x3A5E]"
  by code_simp

text \<open>
  Claim C9. The firmware hands over a frame that is still being received: the frame
  \<open>0xFFFFFF\<close> is complete and not yet drained when, after a pause of 11700 microseconds,
  two edges of the next frame arrive; the pass of the main loop that follows finds the
  flag still set and drains \<open>2\<close>, which is neither the complete previous frame nor
  "not ready".
\<close>

theorem partial_frame_drained:
  "caliper_raw_data (snd (run (frame_edges 6000 0xFFFFFF) init_globals)) = 0xFFFFFF
   \<and> new_packet_ready (snd (run (frame_edges 6000 0xFFFFFF) init_globals))
   \<and> fst (run (frame_edges 6000 0xFFFFFF @ [Edge 20000 False, Edge 20100 True, Poll 0]) init_globals)
     = [Some 2]"
  by code_simp

end
